theory Spec2Isabelle
  imports Main "HOL-Library.Word"
begin

unbundle bit_operations_syntax

section \<open>Errors\<close>

text \<open>
  The Python exceptions that the modelled functions can raise. \<open>ValueError\<close> carries
  its message; \<open>ReaderError\<close> stands for any exception of the web3 client other than
  \<open>ContractLogicError\<close> (which the source catches).
\<close>

datatype error =
    ValueError string
  | ZeroDivisionError
  | IndexError
  | ReaderError

section \<open>Fixed-point arithmetic (uniV3Pricing.py, lines 10-129)\<close>

text \<open>
  Python integers are unbounded, so every quantity is an \<open>int\<close>. Python's \<open>//\<close> is
  floor division, as \<open>div\<close> on \<open>int\<close> is; \<open>x >> n\<close> is \<open>drop_bit n x\<close> and
  \<open>x << n\<close> is \<open>push_bit n x\<close>. A zero divisor raises.
\<close>

definition mul_div :: "int \<Rightarrow> int \<Rightarrow> int \<Rightarrow> error + int" where
  "mul_div a b denominator =
     (if denominator = 0 then Inl ZeroDivisionError else Inr ((a * b) div denominator))"

definition MAX_TICK :: int where
  "MAX_TICK = 887272"

definition get_sqrt_ratio_at_tick :: "int \<Rightarrow> error + int" where
  "get_sqrt_ratio_at_tick tick =
     (let abs_tick = \<bar>tick\<bar> in
      if abs_tick > MAX_TICK then Inl (ValueError ''Tick value out of bounds'')
      else
        let ratio = (if abs_tick AND 0x1 \<noteq> 0
                     then 0xFFFCB933BD6FAD37AA2D162D1A594001
                     else 0x100000000000000000000000000000000);
            ratio = (if abs_tick AND 0x2 \<noteq> 0
                     then drop_bit 128 (ratio * 0xFFF97272373D413259A46990580E213A) else ratio);
            ratio = (if abs_tick AND 0x4 \<noteq> 0
                     then drop_bit 128 (ratio * 0xFFF2E50F5F656932EF12357CF3C7FDCC) else ratio);
            ratio = (if abs_tick AND 0x8 \<noteq> 0
                     then drop_bit 128 (ratio * 0xFFE5CACA7E10E4E61C3624EAA0941CD0) else ratio);
            ratio = (if abs_tick AND 0x10 \<noteq> 0
                     then drop_bit 128 (ratio * 0xFFCB9843D60F6159C9DB58835C926644) else ratio);
            ratio = (if abs_tick AND 0x20 \<noteq> 0
                     then drop_bit 128 (ratio * 0xFF973B41FA98C081472E6896DFB254C0) else ratio);
            ratio = (if abs_tick AND 0x40 \<noteq> 0
                     then drop_bit 128 (ratio * 0xFF2EA16466C96A3843EC78B326B52861) else ratio);
            ratio = (if abs_tick AND 0x80 \<noteq> 0
                     then drop_bit 128 (ratio * 0xFE5DEE046A99A2A811C461F1969C3053) else ratio);
            ratio = (if abs_tick AND 0x100 \<noteq> 0
                     then drop_bit 128 (ratio * 0xFCBE86C7900A88AEDCFFC83B479AA3A4) else ratio);
            ratio = (if abs_tick AND 0x200 \<noteq> 0
                     then drop_bit 128 (ratio * 0xF987A7253AC413176F2B074CF7815E54) else ratio);
            ratio = (if abs_tick AND 0x400 \<noteq> 0
                     then drop_bit 128 (ratio * 0xF3392B0822B70005940C7A398E4B70F3) else ratio);
            ratio = (if abs_tick AND 0x800 \<noteq> 0
                     then drop_bit 128 (ratio * 0xE7159475A2C29B7443B29C7FA6E889D9) else ratio);
            ratio = (if abs_tick AND 0x1000 \<noteq> 0
                     then drop_bit 128 (ratio * 0xD097F3BDFD2022B8845AD8F792AA5825) else ratio);
            ratio = (if abs_tick AND 0x2000 \<noteq> 0
                     then drop_bit 128 (ratio * 0xA9F746462D870FDF8A65DC1F90E061E5) else ratio);
            ratio = (if abs_tick AND 0x4000 \<noteq> 0
                     then drop_bit 128 (ratio * 0x70D869A156D2A1B890BB3DF62BAF32F7) else ratio);
            ratio = (if abs_tick AND 0x8000 \<noteq> 0
                     then drop_bit 128 (ratio * 0x31BE135F97D08FD981231505542FCFA6) else ratio);
            ratio = (if abs_tick AND 0x10000 \<noteq> 0
                     then drop_bit 128 (ratio * 0x9AA508B5B7A84E1C677DE54F3E99BC9) else ratio);
            ratio = (if abs_tick AND 0x20000 \<noteq> 0
                     then drop_bit 128 (ratio * 0x5D6AF8DEDB81196699C329225EE604) else ratio);
            ratio = (if abs_tick AND 0x40000 \<noteq> 0
                     then drop_bit 128 (ratio * 0x2216E584F5FA1EA926041BEDFE98) else ratio);
            ratio = (if abs_tick AND 0x80000 \<noteq> 0
                     then drop_bit 128 (ratio * 0x48A170391F7DC42444E8FA2) else ratio)
        in
          if tick > 0 \<and> ratio = 0 then Inl ZeroDivisionError
          else
            let ratio = (if tick > 0 then push_bit 256 1 div ratio else ratio);
                sqrtPriceX96 = drop_bit 32 ratio + (if ratio mod push_bit 32 1 \<noteq> 0 then 1 else 0)
            in Inr sqrtPriceX96)"

text \<open>
  Lines 93-109. Both functions first put the two square-root prices in ascending order.
  \<open>get_amount0_for_liquidity\<close> divides twice: inside \<open>mul_div\<close> by the larger
  price and then by the smaller one; either division raises on a zero divisor.
\<close>

definition get_amount0_for_liquidity :: "int \<Rightarrow> int \<Rightarrow> int \<Rightarrow> error + int" where
  "get_amount0_for_liquidity sqrtRatioAX96 sqrtRatioBX96 liquidity =
     (let (sqrtRatioAX96, sqrtRatioBX96) =
            (if sqrtRatioAX96 > sqrtRatioBX96 then (sqrtRatioBX96, sqrtRatioAX96)
             else (sqrtRatioAX96, sqrtRatioBX96))
      in case mul_div (push_bit 96 liquidity) (sqrtRatioBX96 - sqrtRatioAX96) sqrtRatioBX96 of
           Inl e \<Rightarrow> Inl e
         | Inr q \<Rightarrow> if sqrtRatioAX96 = 0 then Inl ZeroDivisionError
                    else Inr (q div sqrtRatioAX96))"

definition get_amount1_for_liquidity :: "int \<Rightarrow> int \<Rightarrow> int \<Rightarrow> error + int" where
  "get_amount1_for_liquidity sqrtRatioAX96 sqrtRatioBX96 liquidity =
     (let (sqrtRatioAX96, sqrtRatioBX96) =
            (if sqrtRatioAX96 > sqrtRatioBX96 then (sqrtRatioBX96, sqrtRatioAX96)
             else (sqrtRatioAX96, sqrtRatioBX96))
      in mul_div liquidity (sqrtRatioBX96 - sqrtRatioAX96) (2 ^ 96))"

text \<open>
  Lines 112-129. The three conversions run in the order current, lower, upper, and the
  first one that raises ends the call. The amounts start at zero and each branch assigns
  the ones it computes.
\<close>

definition get_amounts_from_ticks :: "int \<Rightarrow> int \<Rightarrow> int \<Rightarrow> int \<Rightarrow> error + (int \<times> int)" where
  "get_amounts_from_ticks tickCurrent tickLower tickUpper liquidity =
     (case get_sqrt_ratio_at_tick tickCurrent of
        Inl e \<Rightarrow> Inl e
      | Inr sqrtRatioX96 \<Rightarrow>
     (case get_sqrt_ratio_at_tick tickLower of
        Inl e \<Rightarrow> Inl e
      | Inr sqrtRatioAX96 \<Rightarrow>
     (case get_sqrt_ratio_at_tick tickUpper of
        Inl e \<Rightarrow> Inl e
      | Inr sqrtRatioBX96 \<Rightarrow>
        let (sqrtRatioAX96, sqrtRatioBX96) =
              (if sqrtRatioAX96 > sqrtRatioBX96 then (sqrtRatioBX96, sqrtRatioAX96)
               else (sqrtRatioAX96, sqrtRatioBX96))
        in
          if sqrtRatioX96 \<le> sqrtRatioAX96 then
            (case get_amount0_for_liquidity sqrtRatioAX96 sqrtRatioBX96 liquidity of
               Inl e \<Rightarrow> Inl e
             | Inr amount0 \<Rightarrow> Inr (amount0, 0))
          else if sqrtRatioX96 < sqrtRatioBX96 then
            (case get_amount0_for_liquidity sqrtRatioX96 sqrtRatioBX96 liquidity of
               Inl e \<Rightarrow> Inl e
             | Inr amount0 \<Rightarrow>
                 (case get_amount1_for_liquidity sqrtRatioAX96 sqrtRatioX96 liquidity of
                    Inl e \<Rightarrow> Inl e
                  | Inr amount1 \<Rightarrow> Inr (amount0, amount1)))
          else
            (case get_amount1_for_liquidity sqrtRatioAX96 sqrtRatioBX96 liquidity of
               Inl e \<Rightarrow> Inl e
             | Inr amount1 \<Rightarrow> Inr (0, amount1)))))"

section \<open>Position aggregation (uniV3Pricing.py, lines 133-344)\<close>

subsection \<open>The chain reader\<close>

text \<open>
  The web3 client is not part of the repository, so it is a parameter. A contract call
  returns a decoded value, raises \<open>ContractLogicError\<close> (the one exception the source
  catches), or raises something else. \<open>Web3.to_checksum_address\<close> returns the
  checksummed address or raises on a malformed one (\<open>None\<close>). Every contract call that
  is made is appended to a log, so that the calls of a run can be counted.
\<close>

record position_details =
  nonce :: int
  operator :: string
  token0 :: string
  token1 :: string
  fee :: int
  tickLower :: int
  tickUpper :: int
  liquidity :: int
  feeGrowthInside0LastX128 :: int
  feeGrowthInside1LastX128 :: int
  tokensOwed0 :: int
  tokensOwed1 :: int

record slot0_details =
  sqrtPriceX96 :: int
  tick :: int
  observationIndex :: int
  observationCardinality :: int
  observationCardinalityNext :: int
  feeProtocol :: int
  unlocked :: bool

datatype 'a call_result = Returned 'a | ContractLogicError | OtherException

datatype reader_call = PositionsCall string int | Slot0Call string

record chain_reader =
  to_checksum_address :: "string \<Rightarrow> string option"
  positions_call :: "string \<Rightarrow> int \<Rightarrow> position_details call_result"
  slot0_call :: "string \<Rightarrow> slot0_details call_result"

definition get_nft_positions_details ::
  "string \<Rightarrow> chain_reader \<Rightarrow> int \<Rightarrow> reader_call list
     \<Rightarrow> (error + position_details option) \<times> reader_call list" where
  "get_nft_positions_details nft_contract_address w3 token_id calls =
     (case to_checksum_address w3 nft_contract_address of
        None \<Rightarrow> (Inl ReaderError, calls)
      | Some contract_address \<Rightarrow>
          (case positions_call w3 contract_address token_id of
             ContractLogicError \<Rightarrow> (Inr None, calls @ [PositionsCall contract_address token_id])
           | OtherException \<Rightarrow> (Inl ReaderError, calls @ [PositionsCall contract_address token_id])
           | Returned details \<Rightarrow>
               (Inr (Some details), calls @ [PositionsCall contract_address token_id])))"

definition get_uniswap_slot0 ::
  "string \<Rightarrow> chain_reader \<Rightarrow> reader_call list
     \<Rightarrow> (error + slot0_details option) \<times> reader_call list" where
  "get_uniswap_slot0 pool_address w3 calls =
     (case to_checksum_address w3 pool_address of
        None \<Rightarrow> (Inl ReaderError, calls)
      | Some contract_address \<Rightarrow>
          (case slot0_call w3 contract_address of
             ContractLogicError \<Rightarrow> (Inr None, calls @ [Slot0Call contract_address])
           | OtherException \<Rightarrow> (Inl ReaderError, calls @ [Slot0Call contract_address])
           | Returned details \<Rightarrow> (Inr (Some details), calls @ [Slot0Call contract_address])))"

subsection \<open>The pool table and the result dictionary\<close>

record pool_mapping =
  name :: string
  pool :: string
  pool_token0 :: string
  pool_token1 :: string
  decimal0 :: int
  decimal1 :: int

definition POOL_NFT_MAPPINGS :: "pool_mapping list" where
  "POOL_NFT_MAPPINGS =
     [\<lparr>name = ''wETH-USDC'',
       pool = ''0xd0b53D9277642d899DF5C87A3966A349A798F224'',
       pool_token0 = ''0x4200000000000000000000000000000000000006'',
       pool_token1 = ''0x833589fCD6eDb6E08f4c7C32D4f71b54bdA02913'',
       decimal0 = 18, decimal1 = 6\<rparr>,
      \<lparr>name = ''wETH-USDbC'',
       pool = ''0x4C36388bE6F416A29C8d8Eee81C771cE6bE14B18'',
       pool_token0 = ''0x4200000000000000000000000000000000000006'',
       pool_token1 = ''0xd9aAEc86B65D86f6A7B5B1b0c42FFA531710b6CA'',
       decimal0 = 18, decimal1 = 6\<rparr>]"

text \<open>
  \<open>str.lower\<close> on the ASCII strings that addresses are: the letters \<open>A\<close> to \<open>Z\<close>
  move to \<open>a\<close> to \<open>z\<close>, every other character stays.
\<close>

definition lower_char :: "char \<Rightarrow> char" where
  "lower_char c =
     (case map_of (zip ''ABCDEFGHIJKLMNOPQRSTUVWXYZ'' ''abcdefghijklmnopqrstuvwxyz'') c of
        None \<Rightarrow> c
      | Some l \<Rightarrow> l)"

definition lower :: "string \<Rightarrow> string" where
  "lower s = map lower_char s"

text \<open>
  \<open>result\<close> is a \<open>defaultdict(int)\<close>: \<open>dictionary[key] += value\<close> reads 0 for a missing
  key and always stores the key.
\<close>

definition add_or_update_dict :: "(string \<rightharpoonup> int) \<Rightarrow> string \<Rightarrow> int \<Rightarrow> (string \<rightharpoonup> int)" where
  "add_or_update_dict dictionary key v =
     dictionary(key \<mapsto> (case dictionary key of None \<Rightarrow> 0 | Some old \<Rightarrow> old) + v)"

text \<open>Lines 303-308: both orders of every pair of the table, later pools overwriting.\<close>

definition build_pool_lookup :: "pool_mapping list \<Rightarrow> (string \<times> string \<rightharpoonup> pool_mapping)" where
  "build_pool_lookup pools =
     foldl (\<lambda>pool_lookup p.
              let t0 = lower (pool_token0 p); t1 = lower (pool_token1 p)
              in pool_lookup((t0, t1) \<mapsto> p, (t1, t0) \<mapsto> p))
           Map.empty pools"

subsection \<open>The aggregation\<close>

text \<open>Indexing a Python list with a non-negative index raises past the end.\<close>

definition list_get :: "'a list \<Rightarrow> nat \<Rightarrow> error + 'a" where
  "list_get xs i = (if i < length xs then Inr (xs ! i) else Inl IndexError)"

type_synonym asset_data = "string list \<times> int list \<times> int list"

text \<open>Lines 310-311, the loop over the entries whose identifier is zero.\<close>

fun process_zero :: "asset_data \<Rightarrow> nat list \<Rightarrow> (string \<rightharpoonup> int) \<Rightarrow> error + (string \<rightharpoonup> int)" where
  "process_zero asset_data [] result = Inr result"
| "process_zero asset_data (i # rest) result =
     (case list_get (fst asset_data) i of
        Inl e \<Rightarrow> Inl e
      | Inr address \<Rightarrow>
          (case list_get (snd (snd asset_data)) i of
             Inl e \<Rightarrow> Inl e
           | Inr amount \<Rightarrow> process_zero asset_data rest (add_or_update_dict result address amount)))"

text \<open>
  Lines 313-342, the loop over the entries whose identifier is not zero. An exception
  ends the run; \<open>continue\<close> is the recursive call on the remaining indices.
\<close>

fun process_non_zero ::
  "chain_reader \<Rightarrow> (string \<times> string \<rightharpoonup> pool_mapping) \<Rightarrow> asset_data \<Rightarrow> nat list
     \<Rightarrow> (string \<rightharpoonup> int) \<Rightarrow> reader_call list
     \<Rightarrow> (error + (string \<rightharpoonup> int)) \<times> reader_call list" where
  "process_non_zero w3 pool_lookup asset_data [] result calls = (Inr result, calls)"
| "process_non_zero w3 pool_lookup asset_data (i # rest) result calls =
     (case list_get (fst asset_data) i of
        Inl e \<Rightarrow> (Inl e, calls)
      | Inr nft_contract \<Rightarrow>
     (case list_get (fst (snd asset_data)) i of
        Inl e \<Rightarrow> (Inl e, calls)
      | Inr token_id \<Rightarrow>
     (case get_nft_positions_details nft_contract w3 token_id calls of
        (Inl e, calls) \<Rightarrow> (Inl e, calls)
      | (Inr None, calls) \<Rightarrow>
          process_non_zero w3 pool_lookup asset_data rest
            (add_or_update_dict result nft_contract 0) calls
      | (Inr (Some nft_positions_details), calls) \<Rightarrow>
          (let t0 = lower (token0 nft_positions_details);
               t1 = lower (token1 nft_positions_details)
           in case pool_lookup (t0, t1) of
                None \<Rightarrow>
                  process_non_zero w3 pool_lookup asset_data rest
                    (add_or_update_dict result nft_contract 0) calls
              | Some matching_pool \<Rightarrow>
                  (case get_uniswap_slot0 (pool matching_pool) w3 calls of
                     (Inl e, calls) \<Rightarrow> (Inl e, calls)
                   | (Inr None, calls) \<Rightarrow>
                       process_non_zero w3 pool_lookup asset_data rest result calls
                   | (Inr (Some slot0), calls) \<Rightarrow>
                       (case get_amounts_from_ticks (tick slot0)
                               (tickLower nft_positions_details)
                               (tickUpper nft_positions_details)
                               (liquidity nft_positions_details) of
                          Inl e \<Rightarrow> (Inl e, calls)
                        | Inr (amount0, amount1) \<Rightarrow>
                            process_non_zero w3 pool_lookup asset_data rest
                              (add_or_update_dict
                                 (add_or_update_dict result
                                    (token0 nft_positions_details) amount0)
                                 (token1 nft_positions_details) amount1)
                              calls))))))"

definition get_arcadia_account_nft_position ::
  "asset_data \<Rightarrow> chain_reader \<Rightarrow> (error + (string \<rightharpoonup> int)) \<times> reader_call list" where
  "get_arcadia_account_nft_position asset_data w3 =
     (let zero_indices =
            [index. (index, v) \<leftarrow> enumerate 0 (fst (snd asset_data)), v = 0];
          non_zero_indices =
            [index. (index, v) \<leftarrow> enumerate 0 (fst (snd asset_data)), v \<noteq> 0];
          result = Map.empty;
          pool_lookup = build_pool_lookup POOL_NFT_MAPPINGS
      in case process_zero asset_data zero_indices result of
           Inl e \<Rightarrow> (Inl e, [])
         | Inr result \<Rightarrow>
             process_non_zero w3 pool_lookup asset_data non_zero_indices result [])"

subsection \<open>Notions of the specification\<close>


text \<open>
  Following the specification's words: the map that sums each entry's amount under its
  address, repeated addresses adding up.
\<close>

definition summed_amounts :: "string list \<Rightarrow> int list \<Rightarrow> (string \<rightharpoonup> int)" where
  "summed_amounts addresses amounts =
     (\<lambda>a. if a \<in> set addresses
          then Some (sum_list (map (\<lambda>(k, v). if k = a then v else 0) (zip addresses amounts)))
          else None)"







subsection \<open>Example readers\<close>

text \<open>
  Addresses of the source, all in checksum form, so that \<open>Web3.to_checksum_address\<close>
  returns them unchanged: the first and the third sample asset of the docstring of
  \<open>get_arcadia_account_nft_position\<close> (a token contract and the position contract),
  and wETH, USDC and their pool from the pool table.
\<close>

definition SAMPLE_TOKEN :: string where
  "SAMPLE_TOKEN = ''0x2Ae3F1Ec7F1F5012CFEab0185bfc7aa3cf0DEc22''"

definition POSITION_MANAGER :: string where
  "POSITION_MANAGER = ''0x03a520b32C04BF3bEEf7BEb72E919cf822Ed34f1''"

definition WETH :: string where
  "WETH = ''0x4200000000000000000000000000000000000006''"

definition USDC :: string where
  "USDC = ''0x833589fCD6eDb6E08f4c7C32D4f71b54bdA02913''"

definition WETH_USDC_POOL :: string where
  "WETH_USDC_POOL = ''0xd0b53D9277642d899DF5C87A3966A349A798F224''"

definition example_position :: "string \<Rightarrow> string \<Rightarrow> position_details" where
  "example_position t0 t1 =
     \<lparr>nonce = 0, operator = ''0x0000000000000000000000000000000000000000'',
      token0 = t0, token1 = t1, fee = 500,
      tickLower = - 100, tickUpper = 100, liquidity = 10 ^ 18,
      feeGrowthInside0LastX128 = 0, feeGrowthInside1LastX128 = 0,
      tokensOwed0 = 0, tokensOwed1 = 0\<rparr>"

definition example_slot0 :: slot0_details where
  "example_slot0 =
     \<lparr>sqrtPriceX96 = 79228162514264337593543950336, tick = 0, observationIndex = 0,
      observationCardinality = 1, observationCardinalityNext = 1, feeProtocol = 0,
      unlocked = True\<rparr>"

text \<open>
  The reader of the examples knows the five addresses above. The position contract holds
  position 1 in the pair of the sample token and wETH, which is not in the pool table,
  and every other position in wETH-USDC with the range from -100 to 100; on any other
  contract the \<open>positions\<close> call reverts. The pool is at tick 0.
\<close>

definition example_reader :: chain_reader where
  "example_reader =
     \<lparr>to_checksum_address = (\<lambda>a.
         if a \<in> set [SAMPLE_TOKEN, POSITION_MANAGER, WETH, USDC, WETH_USDC_POOL]
         then Some a else None),
      positions_call = (\<lambda>a token_id.
         if a = POSITION_MANAGER
         then (if token_id = 1 then Returned (example_position SAMPLE_TOKEN WETH)
               else Returned (example_position WETH USDC))
         else ContractLogicError),
      slot0_call = (\<lambda>a. Returned example_slot0)\<rparr>"




section \<open>Auxiliary notions for the proofs\<close>

text \<open>
  The twenty multiplications of \<open>get_sqrt_ratio_at_tick\<close> follow one pattern, so the
  proofs work on a recursive form of them: the list of the constants in the order of the
  source, consumed with the bits of the absolute tick from the least significant one.
  \<open>get_sqrt_ratio_at_tick_chain\<close> below shows that the source computes exactly this.
\<close>

definition RATIO_CONSTANTS :: "int list" where
  "RATIO_CONSTANTS =
    [0xFFFCB933BD6FAD37AA2D162D1A594001, 0xFFF97272373D413259A46990580E213A,
     0xFFF2E50F5F656932EF12357CF3C7FDCC, 0xFFE5CACA7E10E4E61C3624EAA0941CD0,
     0xFFCB9843D60F6159C9DB58835C926644, 0xFF973B41FA98C081472E6896DFB254C0,
     0xFF2EA16466C96A3843EC78B326B52861, 0xFE5DEE046A99A2A811C461F1969C3053,
     0xFCBE86C7900A88AEDCFFC83B479AA3A4, 0xF987A7253AC413176F2B074CF7815E54,
     0xF3392B0822B70005940C7A398E4B70F3, 0xE7159475A2C29B7443B29C7FA6E889D9,
     0xD097F3BDFD2022B8845AD8F792AA5825, 0xA9F746462D870FDF8A65DC1F90E061E5,
     0x70D869A156D2A1B890BB3DF62BAF32F7, 0x31BE135F97D08FD981231505542FCFA6,
     0x9AA508B5B7A84E1C677DE54F3E99BC9, 0x5D6AF8DEDB81196699C329225EE604,
     0x2216E584F5FA1EA926041BEDFE98, 0x48A170391F7DC42444E8FA2]"

text \<open>
  \<open>ratio_chain cs a x\<close> runs the multiplications for the constants \<open>cs\<close> on the
  running ratio \<open>x\<close>; the lowest bit of \<open>a\<close> decides about the first constant.
\<close>

fun ratio_chain :: "int list \<Rightarrow> int \<Rightarrow> int \<Rightarrow> int" where
  "ratio_chain [] a x = x"
| "ratio_chain (c # cs) a x =
     ratio_chain cs (a div 2) (if odd a then drop_bit 128 (x * c) else x)"

text \<open>
  The invariant behind monotonicity: \<open>B\<close> lies below \<open>A + m\<close> by the factor
  \<open>1 - 2 ^ -15\<close>, where \<open>m\<close> counts the truncations made so far. One tick changes
  the price by about \<open>5 * 10 ^ -5\<close>, which is more than \<open>2 ^ -15\<close>.
\<close>

definition gap_inv :: "int \<Rightarrow> int \<Rightarrow> int \<Rightarrow> bool" where
  "gap_inv m A B \<longleftrightarrow> 2 ^ 15 * B \<le> (2 ^ 15 - 1) * (A + m)"

text \<open>
  Going from tick \<open>n\<close> to \<open>n + 1\<close> clears the trailing one bits of \<open>n\<close> and sets the
  next bit. \<open>carry_ok\<close> checks, for every position of that bit, that the constant of
  the bit lies below the product of the constants of the bits under it by the factor of
  \<open>gap_inv\<close>: twenty numeric facts about the table.
\<close>

fun carry_ok :: "int list \<Rightarrow> int \<Rightarrow> int \<Rightarrow> bool" where
  "carry_ok [] a b = True"
| "carry_ok (c # cs) a b =
     (gap_inv 0 a (drop_bit 128 (b * c)) \<and> carry_ok cs (drop_bit 128 (a * c)) b)"

text \<open>The ratio with every bit set, the smallest one the multiplications can reach.\<close>

fun ratio_all :: "int list \<Rightarrow> int \<Rightarrow> int" where
  "ratio_all [] x = x"
| "ratio_all (c # cs) x = ratio_all cs (drop_bit 128 (x * c))"

text \<open>
  One conditional multiplication of the source, and the source's sequence of them with
  its bit masks 1, 2, 4 and so on.
\<close>

definition mul_shift_if :: "bool \<Rightarrow> int \<Rightarrow> int \<Rightarrow> int" where
  "mul_shift_if b c x = (if b then drop_bit 128 (x * c) else x)"

fun chain_mask :: "int list \<Rightarrow> int \<Rightarrow> int \<Rightarrow> int \<Rightarrow> int" where
  "chain_mask [] msk a x = x"
| "chain_mask (c # cs) msk a x = chain_mask cs (2 * msk) a (mul_shift_if (a AND msk \<noteq> 0) c x)"

text \<open>Line 89: the shift by 32 bits that rounds up.\<close>

definition round_up_shift :: "int \<Rightarrow> int" where
  "round_up_shift ratio = drop_bit 32 ratio + (if ratio mod push_bit 32 1 \<noteq> 0 then 1 else 0)"

text \<open>
  The ratio after the multiplications for an absolute tick, and the value that
  \<open>get_sqrt_ratio_at_tick\<close> returns for a tick within the bounds.
\<close>

definition ratio_at :: "int \<Rightarrow> int" where
  "ratio_at a = ratio_chain RATIO_CONSTANTS a (2 ^ 128)"

definition sqrt_value :: "int \<Rightarrow> int" where
  "sqrt_value t =
     round_up_shift (if t > 0 then push_bit 256 1 div ratio_at \<bar>t\<bar> else ratio_at \<bar>t\<bar>)"

section \<open>Properties of the fixed-point arithmetic\<close>

text \<open>The numeric facts about the table of constants, by evaluation.\<close>

lemma carry_ok_consts: "carry_ok RATIO_CONSTANTS (2 ^ 128) (2 ^ 128)"
  by (simp add: RATIO_CONSTANTS_def gap_inv_def)

lemma consts_range: "\<forall>c \<in> set RATIO_CONSTANTS. 0 \<le> c \<and> c \<le> 2 ^ 128"
  by (simp add: RATIO_CONSTANTS_def)

lemma ratio_all_consts: "2 ^ 52 \<le> ratio_all RATIO_CONSTANTS (2 ^ 128)"
  by (simp add: RATIO_CONSTANTS_def)

text \<open>
  One truncating multiplication by a constant of at most \<open>K\<close> keeps the invariant and
  costs one unit; so does a whole run of multiplications on both ratios.
\<close>

lemma floor_step:
  fixes K c A B m p q :: int
  assumes K: "0 < K" and c: "0 \<le> c" "c \<le> K" and m: "0 \<le> m" and q: "0 \<le> q" and p: "0 \<le> p"
    and inv: "p * B \<le> q * (A + m)"
  shows "p * (B * c div K) \<le> q * (A * c div K + (m + 1))"
proof -
  have B': "K * (B * c div K) \<le> B * c"
    using K by (metis mult_div_mod_eq pos_mod_sign le_add_same_cancel1)
  have A': "A * c \<le> K * (A * c div K + 1)"
  proof -
    have e: "K * (A * c div K + 1) = K * (A * c div K) + K" by (simp add: algebra_simps)
    show ?thesis
      unfolding e using mult_div_mod_eq[of K "A * c"] pos_mod_bound[OF K, of "A * c"] by linarith
  qed
  have "K * (p * (B * c div K)) = p * (K * (B * c div K))" by simp
  also have "\<dots> \<le> p * (B * c)" using B' p by (rule mult_left_mono)
  also have "\<dots> = (p * B) * c" by simp
  also have "\<dots> \<le> (q * (A + m)) * c" using inv c(1) by (rule mult_right_mono)
  also have "\<dots> = q * (A * c + m * c)" by (simp add: algebra_simps)
  also have "\<dots> \<le> q * (K * (A * c div K + 1) + m * K)"
  proof (rule mult_left_mono[OF _ q])
    have "m * c \<le> m * K" using c(2) m by (rule mult_left_mono)
    with A' show "A * c + m * c \<le> K * (A * c div K + 1) + m * K" by linarith
  qed
  also have "\<dots> = K * (q * (A * c div K + (m + 1)))" by (simp add: algebra_simps)
  finally show ?thesis using K by simp
qed

lemma gap_inv_step:
  assumes "0 \<le> c" "c \<le> 2 ^ 128" "0 \<le> m" "gap_inv m A B"
  shows "gap_inv (m + 1) (drop_bit 128 (A * c)) (drop_bit 128 (B * c))"
proof -
  have "(2 ^ 15 :: int) * (B * c div 2 ^ 128) \<le> (2 ^ 15 - 1) * (A * c div 2 ^ 128 + (m + 1))"
    by (rule floor_step) (use assms in \<open>simp_all add: gap_inv_def\<close>)
  then show ?thesis
    by (simp add: gap_inv_def drop_bit_eq_div add.commute)
qed

lemma gap_inv_mono: "gap_inv m A B \<Longrightarrow> m \<le> m' \<Longrightarrow> gap_inv m' A B"
  by (simp add: gap_inv_def)

lemma ratio_chain_post:
  assumes "\<forall>c \<in> set cs. 0 \<le> c \<and> c \<le> 2 ^ 128" "0 \<le> m" "gap_inv m A B"
  shows "gap_inv (m + int (length cs)) (ratio_chain cs a A) (ratio_chain cs a B)"
  using assms
proof (induction cs arbitrary: a A B m)
  case Nil
  then show ?case by simp
next
  case (Cons c cs)
  have c: "0 \<le> c" "c \<le> 2 ^ 128" and cs: "\<forall>c \<in> set cs. 0 \<le> c \<and> c \<le> 2 ^ 128"
    using Cons.prems(1) by simp_all
  show ?case
  proof (cases "odd a")
    case True
    have "gap_inv (m + 1) (drop_bit 128 (A * c)) (drop_bit 128 (B * c))"
      using c Cons.prems(2,3) by (rule gap_inv_step)
    from Cons.IH[OF cs _ this, of "a div 2"] Cons.prems(2) True
    show ?thesis by (simp add: algebra_simps)
  next
    case False
    have "gap_inv (m + 1) A B" using Cons.prems(3) by (rule gap_inv_mono) simp
    from Cons.IH[OF cs _ this, of "a div 2"] Cons.prems(2) False
    show ?thesis by (simp add: algebra_simps)
  qed
qed

text \<open>
  The ratios of two consecutive absolute ticks: the induction follows the carry of the
  increment through the low bits, and \<open>ratio_chain_post\<close> covers the bits above it.
\<close>

lemma ratio_chain_carry:
  assumes "\<forall>c \<in> set cs. 0 \<le> c \<and> c \<le> 2 ^ 128" "carry_ok cs a b" "0 \<le> n" "n + 1 < 2 ^ length cs"
  shows "gap_inv (int (length cs)) (ratio_chain cs n a) (ratio_chain cs (n + 1) b)"
  using assms
proof (induction cs arbitrary: n a b)
  case Nil
  then show ?case by simp
next
  case (Cons c cs)
  have c: "0 \<le> c" "c \<le> 2 ^ 128" and cs: "\<forall>c \<in> set cs. 0 \<le> c \<and> c \<le> 2 ^ 128"
    using Cons.prems(1) by simp_all
  show ?case
  proof (cases "odd n")
    case True
    then have half: "(n + 1) div 2 = n div 2 + 1" by presburger
    have ok: "carry_ok cs (drop_bit 128 (a * c)) b" using Cons.prems(2) by simp
    have "0 \<le> n div 2" using Cons.prems(3) by simp
    moreover have "n div 2 + 1 < 2 ^ length cs" using Cons.prems(4) True by simp presburger
    ultimately have "gap_inv (int (length cs)) (ratio_chain cs (n div 2) (drop_bit 128 (a * c)))
        (ratio_chain cs (n div 2 + 1) b)"
      using Cons.IH[OF cs ok] by blast
    then have "gap_inv (int (length (c # cs))) (ratio_chain cs (n div 2) (drop_bit 128 (a * c)))
        (ratio_chain cs (n div 2 + 1) b)"
      by (rule gap_inv_mono) simp
    then show ?thesis using True half by simp
  next
    case False
    then have half: "(n + 1) div 2 = n div 2" by presburger
    have "gap_inv 0 a (drop_bit 128 (b * c))" using Cons.prems(2) by simp
    from ratio_chain_post[OF cs _ this, of "n div 2"]
    have "gap_inv (int (length cs)) (ratio_chain cs (n div 2) a)
        (ratio_chain cs (n div 2) (drop_bit 128 (b * c)))" by simp
    then have "gap_inv (int (length (c # cs))) (ratio_chain cs (n div 2) a)
        (ratio_chain cs (n div 2) (drop_bit 128 (b * c)))"
      by (rule gap_inv_mono) simp
    then show ?thesis using False half by simp
  qed
qed

text \<open>Every ratio lies between the one with all bits set and its start value.\<close>

lemma drop_mul_le:
  fixes x c :: int
  assumes "0 \<le> x" "0 \<le> c" "c \<le> 2 ^ 128"
  shows "0 \<le> drop_bit 128 (x * c)" "drop_bit 128 (x * c) \<le> x"
proof -
  show "0 \<le> drop_bit 128 (x * c)"
    using assms by (simp add: drop_bit_eq_div pos_imp_zdiv_nonneg_iff)
  have "x * c \<le> x * 2 ^ 128" using assms by (intro mult_left_mono) simp_all
  then have "x * c div 2 ^ 128 \<le> x * 2 ^ 128 div 2 ^ 128" by (rule zdiv_mono1) simp
  then show "drop_bit 128 (x * c) \<le> x" by (simp add: drop_bit_eq_div)
qed

lemma drop_mul_mono:
  fixes x y c :: int
  assumes "x \<le> y" "0 \<le> c"
  shows "drop_bit 128 (x * c) \<le> drop_bit 128 (y * c)"
proof -
  have "x * c \<le> y * c" using assms by (rule mult_right_mono)
  then show ?thesis by (simp add: drop_bit_eq_div zdiv_mono1)
qed

lemma ratio_all_mono:
  assumes "\<forall>c \<in> set cs. 0 \<le> c \<and> c \<le> 2 ^ 128" "x \<le> y"
  shows "ratio_all cs x \<le> ratio_all cs y"
  using assms
  by (induction cs arbitrary: x y) (simp_all add: drop_mul_mono)

lemma ratio_chain_bounds:
  assumes "\<forall>c \<in> set cs. 0 \<le> c \<and> c \<le> 2 ^ 128" "0 \<le> x"
  shows "ratio_all cs x \<le> ratio_chain cs a x \<and> ratio_chain cs a x \<le> x"
  using assms
proof (induction cs arbitrary: a x)
  case Nil
  then show ?case by simp
next
  case (Cons c cs)
  have c: "0 \<le> c" "c \<le> 2 ^ 128" and cs: "\<forall>c \<in> set cs. 0 \<le> c \<and> c \<le> 2 ^ 128"
    using Cons.prems(1) by simp_all
  note d = drop_mul_le[OF Cons.prems(2) c]
  show ?case
  proof (cases "odd a")
    case True
    from Cons.IH[OF cs d(1), of "a div 2"] d(2) True show ?thesis by simp
  next
    case False
    have "ratio_all cs (drop_bit 128 (x * c)) \<le> ratio_all cs x"
      using cs d(2) by (rule ratio_all_mono)
    with Cons.IH[OF cs Cons.prems(2), of "a div 2"] False show ?thesis by simp
  qed
qed

text \<open>The source's sequence of conditional multiplications is the recursive form.\<close>

lemma chain_mask_eq: "chain_mask cs (2 ^ k) a x = ratio_chain cs (a div 2 ^ k) x"
proof (induction cs arbitrary: k x)
  case Nil
  then show ?case by simp
next
  case (Cons c cs)
  have b: "(a AND 2 ^ k \<noteq> 0) = odd (a div 2 ^ k)"
    by (simp add: and_exp_eq_0_iff_not_bit bit_iff_odd)
  have "a div (2 ^ k * 2) = a div 2 ^ k div 2"
    by (rule zdiv_zmult2_eq) simp
  then have d: "a div 2 ^ k div 2 = a div 2 ^ Suc k"
    by (simp add: mult.commute)
  have "chain_mask (c # cs) (2 ^ k) a x = chain_mask cs (2 ^ Suc k) a (mul_shift_if (a AND 2 ^ k \<noteq> 0) c x)"
    by simp
  also have "\<dots> = ratio_chain cs (a div 2 ^ Suc k) (mul_shift_if (a AND 2 ^ k \<noteq> 0) c x)"
    by (rule Cons.IH)
  finally show ?case by (simp add: b d mul_shift_if_def)
qed

lemma first_step:
  "(if b then 0xFFFCB933BD6FAD37AA2D162D1A594001
    else (0x100000000000000000000000000000000::int)) =
   mul_shift_if b 0xFFFCB933BD6FAD37AA2D162D1A594001 (2 ^ 128)"
  by (simp add: mul_shift_if_def drop_bit_eq_div)

lemma get_sqrt_ratio_at_tick_chain:
  "get_sqrt_ratio_at_tick t =
     (if \<bar>t\<bar> > MAX_TICK then Inl (ValueError ''Tick value out of bounds'')
      else if t > 0 \<and> ratio_at \<bar>t\<bar> = 0 then Inl ZeroDivisionError
      else Inr (round_up_shift (if t > 0 then push_bit 256 1 div ratio_at \<bar>t\<bar> else ratio_at \<bar>t\<bar>)))"
proof -
  have r: "ratio_at \<bar>t\<bar> = chain_mask RATIO_CONSTANTS 1 \<bar>t\<bar> (2 ^ 128)"
    using chain_mask_eq[of RATIO_CONSTANTS 0 "\<bar>t\<bar>" "2 ^ 128"] by (simp add: ratio_at_def)
  show ?thesis
    unfolding r get_sqrt_ratio_at_tick_def first_step
    unfolding mul_shift_if_def[symmetric] RATIO_CONSTANTS_def chain_mask.simps round_up_shift_def
    by (simp add: Let_def)
qed

text \<open>
  Consecutive ratios differ by more than \<open>2 ^ 32\<close>, and so do their inverses, which
  survives the rounding shift by 32 bits.
\<close>

lemma ratio_at_bounds: "2 ^ 52 \<le> ratio_at a" "ratio_at a \<le> 2 ^ 128"
proof -
  have "ratio_all RATIO_CONSTANTS (2 ^ 128) \<le> ratio_at a \<and> ratio_at a \<le> 2 ^ 128"
    unfolding ratio_at_def by (rule ratio_chain_bounds[OF consts_range]) simp
  with ratio_all_consts show "2 ^ 52 \<le> ratio_at a" "ratio_at a \<le> 2 ^ 128"
    by linarith+
qed

lemma length_consts: "length RATIO_CONSTANTS = 20"
  by (simp add: RATIO_CONSTANTS_def)

lemma ratio_at_gap:
  assumes "0 \<le> n" "n + 1 < 2 ^ 20"
  shows "gap_inv 20 (ratio_at n) (ratio_at (n + 1))"
  using ratio_chain_carry[OF consts_range carry_ok_consts, of n] assms
  by (simp add: length_consts ratio_at_def)

lemma ratio_at_step:
  assumes "0 \<le> n" "n + 1 < 2 ^ 20"
  shows "ratio_at (n + 1) + 2 ^ 32 \<le> ratio_at n"
  using ratio_at_gap[OF assms] ratio_at_bounds(1)[of n]
  by (simp add: gap_inv_def)

lemma inverse_step:
  assumes "0 \<le> n" "n + 1 < 2 ^ 20"
  shows "2 ^ 256 div ratio_at n + 2 ^ 32 \<le> 2 ^ 256 div ratio_at (n + 1)"
proof -
  define A where "A = ratio_at n"
  define B where "B = ratio_at (n + 1)"
  define q where "q = (2 ^ 256 :: int) div A"
  have A: "2 ^ 52 \<le> A" and B: "2 ^ 52 \<le> B" "B \<le> 2 ^ 128"
    using ratio_at_bounds by (simp_all add: A_def B_def)
  have inv: "2 ^ 15 * B \<le> (2 ^ 15 - 1) * (A + 20)"
    using ratio_at_gap[OF assms] by (simp add: gap_inv_def A_def B_def)
  have q0: "0 \<le> q" using A by (simp add: q_def pos_imp_zdiv_nonneg_iff)
  have qA: "q * A \<le> 2 ^ 256"
  proof -
    have "A * q + 2 ^ 256 mod A = 2 ^ 256" unfolding q_def by (rule mult_div_mod_eq)
    moreover have "0 \<le> (2 ^ 256 :: int) mod A" using A by simp
    moreover have "q * A = A * q" by (rule mult.commute)
    ultimately show ?thesis by linarith
  qed
  have qle: "q \<le> 2 ^ 204"
  proof -
    have "(2 ^ 256 :: int) div A \<le> 2 ^ 256 div 2 ^ 52"
      by (rule zdiv_mono2) (use A in simp_all)
    then show ?thesis by (simp add: q_def)
  qed
  have "2 ^ 15 * ((q + 2 ^ 32) * B) = q * (2 ^ 15 * B) + 2 ^ 47 * B"
    by (simp add: algebra_simps)
  also have "\<dots> \<le> q * ((2 ^ 15 - 1) * (A + 20)) + 2 ^ 47 * B"
    using mult_left_mono[OF inv q0] by simp
  also have "\<dots> = (2 ^ 15 - 1) * (q * A) + (2 ^ 15 - 1) * 20 * q + 2 ^ 47 * B"
    by (simp add: algebra_simps)
  also have "\<dots> \<le> (2 ^ 15 - 1) * 2 ^ 256 + (2 ^ 15 - 1) * 20 * 2 ^ 204 + 2 ^ 47 * 2 ^ 128"
    using qA qle B(2) by simp
  also have "\<dots> \<le> 2 ^ 15 * 2 ^ 256" by simp
  finally have "2 ^ 15 * ((q + 2 ^ 32) * B) \<le> 2 ^ 15 * (2 ^ 256 :: int)" .
  then have "(q + 2 ^ 32) * B \<le> 2 ^ 256"
    by (rule mult_left_le_imp_le) simp
  then have "(q + 2 ^ 32) * B div B \<le> 2 ^ 256 div B"
    by (rule zdiv_mono1) (use B in simp)
  moreover have "B \<noteq> 0" using B by simp
  ultimately show ?thesis by (simp add: q_def A_def B_def)
qed

lemma ceil_div_bounds:
  fixes K x :: int
  assumes K: "0 < K"
  shows "K * (x div K + (if x mod K \<noteq> 0 then 1 else 0)) < x + K"
    and "x \<le> K * (x div K + (if x mod K \<noteq> 0 then 1 else 0))"
proof -
  have e: "K * (x div K) + x mod K = x" by (rule mult_div_mod_eq)
  have s: "0 \<le> x mod K" "x mod K < K" using K by simp_all
  have d: "K * (x div K + 1) = K * (x div K) + K" by (simp add: algebra_simps)
  show "K * (x div K + (if x mod K \<noteq> 0 then 1 else 0)) < x + K"
  proof (cases "x mod K = 0")
    case True
    then show ?thesis using e K by simp
  next
    case False
    then have "K * (x div K + (if x mod K \<noteq> 0 then 1 else 0)) = K * (x div K) + K"
      using d by simp
    then show ?thesis using e s False by linarith
  qed
  show "x \<le> K * (x div K + (if x mod K \<noteq> 0 then 1 else 0))"
  proof (cases "x mod K = 0")
    case True
    then show ?thesis using e by simp
  next
    case False
    then have "K * (x div K + (if x mod K \<noteq> 0 then 1 else 0)) = K * (x div K) + K"
      using d by simp
    then show ?thesis using e s by linarith
  qed
qed

lemma round_up_shift_bounds:
  "2 ^ 32 * round_up_shift x < x + 2 ^ 32" "x \<le> 2 ^ 32 * round_up_shift x"
  using ceil_div_bounds[of "2 ^ 32" x]
  by (simp_all add: round_up_shift_def drop_bit_eq_div)

lemma round_up_shift_strict:
  assumes "b + 2 ^ 32 \<le> a"
  shows "round_up_shift b < round_up_shift a"
proof -
  have "2 ^ 32 * round_up_shift b < 2 ^ 32 * round_up_shift a"
    using round_up_shift_bounds(1)[of b] round_up_shift_bounds(2)[of a] assms by linarith
  then show ?thesis by simp
qed

lemma round_up_shift_mono:
  assumes "b \<le> a"
  shows "round_up_shift b \<le> round_up_shift a"
proof -
  have "2 ^ 32 * round_up_shift b < 2 ^ 32 * (round_up_shift a + 1)"
    using round_up_shift_bounds(1)[of b] round_up_shift_bounds(2)[of a] assms by simp
  then have "round_up_shift b < round_up_shift a + 1" by simp
  then show ?thesis by simp
qed

text \<open>Strict monotonicity of the returned value, first for one step of the tick.\<close>

lemma ratio_at_0: "ratio_at 0 = 2 ^ 128"
  by (simp add: ratio_at_def RATIO_CONSTANTS_def)

lemma sqrt_value_step:
  assumes "- (2 ^ 20) < t" "t + 1 < 2 ^ 20"
  shows "sqrt_value t < sqrt_value (t + 1)"
proof (cases "0 \<le> t")
  case True
  have i: "2 ^ 256 div ratio_at t + 2 ^ 32 \<le> 2 ^ 256 div ratio_at (t + 1)"
    using True assms(2) by (rule inverse_step)
  have "sqrt_value t = round_up_shift (2 ^ 256 div ratio_at t)"
  proof (cases "t = 0")
    case True
    then show ?thesis by (simp add: sqrt_value_def ratio_at_0)
  next
    case False
    with \<open>0 \<le> t\<close> show ?thesis by (simp add: sqrt_value_def)
  qed
  moreover have "sqrt_value (t + 1) = round_up_shift (2 ^ 256 div ratio_at (t + 1))"
    using True by (simp add: sqrt_value_def)
  ultimately show ?thesis using round_up_shift_strict[OF i] by simp
next
  case False
  define n where "n = - t - 1"
  have n: "0 \<le> n" "n + 1 < 2 ^ 20" using False assms(1) by (simp_all add: n_def)
  have "ratio_at (n + 1) + 2 ^ 32 \<le> ratio_at n" using n by (rule ratio_at_step)
  then have "round_up_shift (ratio_at (n + 1)) < round_up_shift (ratio_at n)"
    by (rule round_up_shift_strict)
  moreover have "\<bar>t\<bar> = n + 1" "\<bar>t + 1\<bar> = n" using False by (simp_all add: n_def)
  ultimately show ?thesis using False by (simp add: sqrt_value_def)
qed

lemma sqrt_value_strict_mono:
  assumes "- (2 ^ 20) < t1" "t1 < t2" "t2 < 2 ^ 20"
  shows "sqrt_value t1 < sqrt_value t2"
proof -
  have "t2 < 2 ^ 20 \<longrightarrow> sqrt_value t1 < sqrt_value t2"
    using assms(2)
  proof (induction t2 rule: int_gr_induct)
    case base
    show ?case using sqrt_value_step[of t1] assms(1) by simp
  next
    case (step i)
    show ?case
    proof
      assume b: "i + 1 < 2 ^ 20"
      then have "sqrt_value t1 < sqrt_value i" using step.IH by simp
      moreover have "sqrt_value i < sqrt_value (i + 1)"
        using step.hyps assms(1) b by (intro sqrt_value_step) simp_all
      ultimately show "sqrt_value t1 < sqrt_value (i + 1)" by simp
    qed
  qed
  with assms(3) show ?thesis by simp
qed

lemma get_sqrt_ratio_at_tick_value:
  assumes "\<bar>t\<bar> \<le> 887272"
  shows "get_sqrt_ratio_at_tick t = Inr (sqrt_value t)"
proof -
  have "ratio_at \<bar>t\<bar> \<noteq> 0" using ratio_at_bounds(1)[of "\<bar>t\<bar>"] by simp
  with assms show ?thesis
    unfolding get_sqrt_ratio_at_tick_chain sqrt_value_def by (simp add: MAX_TICK_def)
qed

lemma get_sqrt_ratio_at_tick_out_of_bounds:
  assumes "\<bar>t\<bar> > 887272"
  shows "get_sqrt_ratio_at_tick t = Inl (ValueError ''Tick value out of bounds'')"
  using assms unfolding get_sqrt_ratio_at_tick_chain by (simp add: MAX_TICK_def)

lemma sqrt_value_min: "sqrt_value (- 887272) = 4295128739"
proof -
  have "get_sqrt_ratio_at_tick (- 887272) = Inr 4295128739"
    by (simp add: get_sqrt_ratio_at_tick_def MAX_TICK_def)
  then show ?thesis using get_sqrt_ratio_at_tick_value[of "- 887272"] by simp
qed

lemma sqrt_value_max: "sqrt_value 887272 = 1461446703485210103287273052203988822378723970342"
proof -
  have "get_sqrt_ratio_at_tick 887272 = Inr 1461446703485210103287273052203988822378723970342"
    by (simp add: get_sqrt_ratio_at_tick_def MAX_TICK_def)
  then show ?thesis using get_sqrt_ratio_at_tick_value[of 887272] by simp
qed

lemma sqrt_value_range:
  assumes "\<bar>t\<bar> \<le> 887272"
  shows "4295128739 \<le> sqrt_value t" "sqrt_value t \<le> 1461446703485210103287273052203988822378723970342"
proof -
  show "4295128739 \<le> sqrt_value t"
  proof (cases "t = - 887272")
    case True
    then show ?thesis by (simp add: sqrt_value_min)
  next
    case False
    then have "sqrt_value (- 887272) < sqrt_value t"
      using assms by (intro sqrt_value_strict_mono) simp_all
    then show ?thesis by (simp add: sqrt_value_min)
  qed
  show "sqrt_value t \<le> 1461446703485210103287273052203988822378723970342"
  proof (cases "t = 887272")
    case True
    then show ?thesis by (simp add: sqrt_value_max)
  next
    case False
    then have "sqrt_value t < sqrt_value 887272"
      using assms by (intro sqrt_value_strict_mono) simp_all
    then show ?thesis by (simp add: sqrt_value_max)
  qed
qed

text \<open>The amounts in closed form.\<close>

lemma get_amount0_for_liquidity_pos:
  assumes "0 < a" "0 < b"
  shows "get_amount0_for_liquidity a b L =
           Inr (push_bit 96 L * (max a b - min a b) div max a b div min a b)"
  using assms by (simp add: get_amount0_for_liquidity_def mul_div_def max_def min_def)

lemma get_amount1_for_liquidity_value:
  "get_amount1_for_liquidity a b L = Inr (L * (max a b - min a b) div 2 ^ 96)"
  by (simp add: get_amount1_for_liquidity_def mul_div_def max_def min_def)

lemma get_amounts_from_ticks_value:
  assumes "\<bar>tcur\<bar> \<le> 887272" "\<bar>tlow\<bar> \<le> 887272" "\<bar>tup\<bar> \<le> 887272"
  defines "sc \<equiv> sqrt_value tcur" and "lo \<equiv> min (sqrt_value tlow) (sqrt_value tup)"
    and "hi \<equiv> max (sqrt_value tlow) (sqrt_value tup)"
  shows "get_amounts_from_ticks tcur tlow tup L =
     (if sc \<le> lo then Inr (push_bit 96 L * (hi - lo) div hi div lo, 0)
      else if sc < hi then Inr (push_bit 96 L * (hi - sc) div hi div sc, L * (sc - lo) div 2 ^ 96)
      else Inr (0, L * (hi - lo) div 2 ^ 96))"
proof -
  have p: "0 < sqrt_value tcur" "0 < sqrt_value tlow" "0 < sqrt_value tup"
    using assms(1-3) sqrt_value_range(1)[of tcur] sqrt_value_range(1)[of tlow]
      sqrt_value_range(1)[of tup] by simp_all
  show ?thesis
    unfolding lo_def hi_def sc_def using assms(1-3) p
    by (simp add: get_amounts_from_ticks_def get_sqrt_ratio_at_tick_value
        get_amount0_for_liquidity_pos get_amount1_for_liquidity_value min_def max_def)
qed

lemma sqrt_ratio_examples:
  "get_sqrt_ratio_at_tick (- 200) = Inr 78439868342809377387252074393"
  "get_sqrt_ratio_at_tick (- 100) = Inr 78833030112140176575862854579"
  "get_sqrt_ratio_at_tick 100 = Inr 79625275426524748796330556128"
  "get_sqrt_ratio_at_tick 200 = Inr 80024378775772204256025656563"
  by (simp_all add: get_sqrt_ratio_at_tick_def MAX_TICK_def)

lemma sqrt_ratio_example_zero:
  "get_sqrt_ratio_at_tick 0 = Inr 79228162514264337593543950336"
  by (simp add: get_sqrt_ratio_at_tick_def MAX_TICK_def)

lemma get_amounts_from_ticks_examples:
  "get_amounts_from_ticks (- 200) (- 100) 100 (10 ^ 18) = Inr (9999541693800299, 0)"
  "get_amounts_from_ticks 0 (- 100) 100 (10 ^ 18) = Inr (4987272070749096, 4987272070749096)"
  "get_amounts_from_ticks 200 (- 100) 100 (10 ^ 18) = Inr (0, 9999541693800299)"
  by (simp_all add: get_amounts_from_ticks_def sqrt_ratio_examples sqrt_ratio_example_zero
      get_amount0_for_liquidity_def get_amount1_for_liquidity_def mul_div_def)

section \<open>The claims about the fixed-point arithmetic\<close>

text \<open>
  Claim C9. \<open>get_sqrt_ratio_at_tick 0\<close> returns exactly \<open>2 ^ 96\<close>, the Q96
  representation of the price 1.
\<close>

theorem get_sqrt_ratio_at_tick_zero: "get_sqrt_ratio_at_tick 0 = Inr (2 ^ 96)"
  by (simp add: get_sqrt_ratio_at_tick_def MAX_TICK_def)

text \<open>
  Claim C3. \<open>get_sqrt_ratio_at_tick\<close> raises exactly when the absolute tick exceeds
  887272, the exception is then the \<open>ValueError\<close> of the bounds check, and every tick
  within the bounds yields a value; 887273 and -887273 are both rejected.
\<close>

theorem get_sqrt_ratio_at_tick_domain:
  "((\<exists>e. get_sqrt_ratio_at_tick t = Inl e) \<longleftrightarrow> \<bar>t\<bar> > 887272) \<and>
   (\<bar>t\<bar> > 887272 \<longrightarrow>
      get_sqrt_ratio_at_tick t = Inl (ValueError ''Tick value out of bounds'')) \<and>
   (\<bar>t\<bar> \<le> 887272 \<longrightarrow> (\<exists>s. get_sqrt_ratio_at_tick t = Inr s)) \<and>
   get_sqrt_ratio_at_tick 887273 = Inl (ValueError ''Tick value out of bounds'') \<and>
   get_sqrt_ratio_at_tick (- 887273) = Inl (ValueError ''Tick value out of bounds'')"
proof (cases "\<bar>t\<bar> > 887272")
  case True
  then show ?thesis
    using get_sqrt_ratio_at_tick_out_of_bounds[of t]
      get_sqrt_ratio_at_tick_out_of_bounds[of 887273]
      get_sqrt_ratio_at_tick_out_of_bounds[of "- 887273"]
    by simp
next
  case False
  then have "get_sqrt_ratio_at_tick t = Inr (sqrt_value t)"
    by (intro get_sqrt_ratio_at_tick_value) simp
  with False show ?thesis
    using get_sqrt_ratio_at_tick_out_of_bounds[of 887273]
      get_sqrt_ratio_at_tick_out_of_bounds[of "- 887273"]
    by simp
qed

theorem get_sqrt_ratio_at_tick_domain_witness:
  "\<bar>887272 :: int\<bar> \<le> 887272 \<and> (\<exists>s. get_sqrt_ratio_at_tick 887272 = Inr s) \<and>
   \<bar>- 900000 :: int\<bar> > 887272 \<and> (\<exists>e. get_sqrt_ratio_at_tick (- 900000) = Inl e)"
  using get_sqrt_ratio_at_tick_domain[of 887272] get_sqrt_ratio_at_tick_domain[of "- 900000"]
  by simp

text \<open>
  Claim C4. For every tick within the bounds the returned square-root price fits in
  160 bits.
\<close>

theorem get_sqrt_ratio_at_tick_fits_160:
  assumes "\<bar>t\<bar> \<le> 887272"
  shows "\<exists>s. get_sqrt_ratio_at_tick t = Inr s \<and> 0 \<le> s \<and> s < 2 ^ 160"
proof -
  have "get_sqrt_ratio_at_tick t = Inr (sqrt_value t)"
    using assms by (rule get_sqrt_ratio_at_tick_value)
  moreover have "0 \<le> sqrt_value t" "sqrt_value t < 2 ^ 160"
    using sqrt_value_range[OF assms] by simp_all
  ultimately show ?thesis by simp
qed

theorem get_sqrt_ratio_at_tick_fits_160_witness:
  "\<bar>887272 :: int\<bar> \<le> 887272 \<and>
   (\<exists>s. get_sqrt_ratio_at_tick 887272 = Inr s \<and> 0 \<le> s \<and> s < 2 ^ 160)"
  using get_sqrt_ratio_at_tick_fits_160[of 887272] by simp

text \<open>
  Claim C2. \<open>get_sqrt_ratio_at_tick\<close> is strictly increasing on its domain: for ticks
  \<open>t1 < t2\<close> within the bounds both calls return, and the value at \<open>t1\<close> is
  strictly below the value at \<open>t2\<close>.
\<close>

theorem get_sqrt_ratio_at_tick_strict_mono:
  assumes "- 887272 \<le> t1" "t1 < t2" "t2 \<le> 887272"
  shows "\<exists>s1 s2. get_sqrt_ratio_at_tick t1 = Inr s1 \<and> get_sqrt_ratio_at_tick t2 = Inr s2 \<and>
           s1 < s2"
proof -
  have "get_sqrt_ratio_at_tick t1 = Inr (sqrt_value t1)"
    using assms by (intro get_sqrt_ratio_at_tick_value) simp
  moreover have "get_sqrt_ratio_at_tick t2 = Inr (sqrt_value t2)"
    using assms by (intro get_sqrt_ratio_at_tick_value) simp
  moreover have "sqrt_value t1 < sqrt_value t2"
    using assms by (intro sqrt_value_strict_mono) simp_all
  ultimately show ?thesis by simp
qed

theorem get_sqrt_ratio_at_tick_strict_mono_witness:
  "- 887272 \<le> (- 887272 :: int) \<and> (- 887272 :: int) < 887272 \<and> (887272 :: int) \<le> 887272 \<and>
   (\<exists>s1 s2. get_sqrt_ratio_at_tick (- 887272) = Inr s1 \<and>
      get_sqrt_ratio_at_tick 887272 = Inr s2 \<and> s1 < s2)"
  using get_sqrt_ratio_at_tick_strict_mono[of "- 887272" 887272] by simp

text \<open>
  Claim C8. \<open>get_amount0_for_liquidity\<close> does not depend on the order of its two
  square-root prices: for distinct non-zero prices \<open>A\<close> and \<open>B\<close> and any liquidity
  the call returns, and returns the same amount for \<open>(A, B)\<close> and \<open>(B, A)\<close>;
  \<open>get_amount1_for_liquidity\<close> is order independent in the same way.
\<close>

theorem get_amount_for_liquidity_order_independent:
  assumes "A \<noteq> B" "A \<noteq> 0" "B \<noteq> 0"
  shows "get_amount0_for_liquidity A B L = get_amount0_for_liquidity B A L \<and>
         (\<exists>v. get_amount0_for_liquidity A B L = Inr v) \<and>
         get_amount1_for_liquidity A B L = get_amount1_for_liquidity B A L \<and>
         (\<exists>v. get_amount1_for_liquidity A B L = Inr v)"
  using assms
  by (simp add: get_amount0_for_liquidity_def get_amount1_for_liquidity_def mul_div_def)

theorem get_amount_for_liquidity_order_independent_witness:
  "(3 :: int) \<noteq> 5 \<and> (3 :: int) \<noteq> 0 \<and> (5 :: int) \<noteq> 0 \<and>
   get_amount0_for_liquidity 3 5 7 = get_amount0_for_liquidity 5 3 7 \<and>
   get_amount1_for_liquidity 3 5 7 = get_amount1_for_liquidity 5 3 7"
  using get_amount_for_liquidity_order_independent[of 3 5 7] by simp

text \<open>
  Claim C10. \<open>get_amount0_for_liquidity\<close> raises \<open>ZeroDivisionError\<close> whenever the
  smaller of its two square-root prices is zero. When both prices are positive it
  returns a value, and every square-root price that \<open>get_sqrt_ratio_at_tick\<close> returns
  for a tick within the bounds is positive, so on such prices the division error cannot
  occur.
\<close>

theorem get_amount0_for_liquidity_division:
  "(min a b = 0 \<longrightarrow> get_amount0_for_liquidity a b L = Inl ZeroDivisionError) \<and>
   (0 < a \<and> 0 < b \<longrightarrow> (\<exists>v. get_amount0_for_liquidity a b L = Inr v)) \<and>
   (\<bar>ta\<bar> \<le> 887272 \<and> \<bar>tb\<bar> \<le> 887272 \<longrightarrow>
      (\<exists>sa sb v. get_sqrt_ratio_at_tick ta = Inr sa \<and> 0 < sa \<and>
         get_sqrt_ratio_at_tick tb = Inr sb \<and> 0 < sb \<and>
         get_amount0_for_liquidity sa sb L = Inr v))"
proof (intro conjI impI)
  assume "min a b = 0"
  then show "get_amount0_for_liquidity a b L = Inl ZeroDivisionError"
    by (auto simp add: get_amount0_for_liquidity_def mul_div_def min_def split: if_splits)
next
  assume "0 < a \<and> 0 < b"
  then show "\<exists>v. get_amount0_for_liquidity a b L = Inr v"
    by (simp add: get_amount0_for_liquidity_pos)
next
  assume r: "\<bar>ta\<bar> \<le> 887272 \<and> \<bar>tb\<bar> \<le> 887272"
  then have "get_sqrt_ratio_at_tick ta = Inr (sqrt_value ta)"
    and "get_sqrt_ratio_at_tick tb = Inr (sqrt_value tb)"
    by (simp_all add: get_sqrt_ratio_at_tick_value)
  moreover have p: "0 < sqrt_value ta" "0 < sqrt_value tb"
    using r sqrt_value_range(1)[of ta] sqrt_value_range(1)[of tb] by simp_all
  moreover have "\<exists>v. get_amount0_for_liquidity (sqrt_value ta) (sqrt_value tb) L = Inr v"
    using p by (simp add: get_amount0_for_liquidity_pos)
  ultimately show "\<exists>sa sb v. get_sqrt_ratio_at_tick ta = Inr sa \<and> 0 < sa \<and>
         get_sqrt_ratio_at_tick tb = Inr sb \<and> 0 < sb \<and>
         get_amount0_for_liquidity sa sb L = Inr v"
    by simp
qed

theorem get_amount0_for_liquidity_division_witness:
  "min (0 :: int) 5 = 0 \<and> get_amount0_for_liquidity 0 5 7 = Inl ZeroDivisionError \<and>
   (0 :: int) < 3 \<and> (0 :: int) < 5 \<and> (\<exists>v. get_amount0_for_liquidity 3 5 7 = Inr v) \<and>
   \<bar>- 100 :: int\<bar> \<le> 887272 \<and> \<bar>100 :: int\<bar> \<le> 887272 \<and>
   (\<exists>sa sb v. get_sqrt_ratio_at_tick (- 100) = Inr sa \<and> 0 < sa \<and>
      get_sqrt_ratio_at_tick 100 = Inr sb \<and> 0 < sb \<and>
      get_amount0_for_liquidity sa sb 7 = Inr v)"
  using get_amount0_for_liquidity_division[of 0 5 7 0 0]
    get_amount0_for_liquidity_division[of 3 5 7 "- 100" 100]
  by simp

text \<open>
  Claim C1. For ticks within the bounds and any liquidity, \<open>get_amounts_from_ticks\<close>
  follows the three regimes on the square-root prices \<open>sc\<close> (current), \<open>sl\<close> and
  \<open>su\<close> (the range): with \<open>sc\<close> at or below the smaller range price the position is
  all token0, strictly between the two range prices it is split at \<open>sc\<close>, and with
  \<open>sc\<close> at or above the larger range price it is all token1. In each regime the
  amounts are the ones \<open>get_amount0_for_liquidity\<close> and
  \<open>get_amount1_for_liquidity\<close> return, and no call raises. For the range from -100 to
  100 and liquidity \<open>10 ^ 18\<close> the current ticks -200, 0 and 200 give one regime each.
\<close>

theorem get_amounts_from_ticks_regimes:
  "(\<bar>tcur\<bar> \<le> 887272 \<and> \<bar>tlow\<bar> \<le> 887272 \<and> \<bar>tup\<bar> \<le> 887272 \<longrightarrow>
     (\<exists>sc sl su.
        get_sqrt_ratio_at_tick tcur = Inr sc \<and> get_sqrt_ratio_at_tick tlow = Inr sl \<and>
        get_sqrt_ratio_at_tick tup = Inr su \<and>
        (sc \<le> min sl su \<longrightarrow>
           (\<exists>a0. get_amount0_for_liquidity (min sl su) (max sl su) L = Inr a0 \<and>
              get_amounts_from_ticks tcur tlow tup L = Inr (a0, 0))) \<and>
        (min sl su < sc \<and> sc < max sl su \<longrightarrow>
           (\<exists>a0 a1. get_amount0_for_liquidity sc (max sl su) L = Inr a0 \<and>
              get_amount1_for_liquidity (min sl su) sc L = Inr a1 \<and>
              get_amounts_from_ticks tcur tlow tup L = Inr (a0, a1))) \<and>
        (max sl su \<le> sc \<longrightarrow>
           (\<exists>a1. get_amount1_for_liquidity (min sl su) (max sl su) L = Inr a1 \<and>
              get_amounts_from_ticks tcur tlow tup L = Inr (0, a1))))) \<and>
   (\<exists>a0. get_amounts_from_ticks (- 200) (- 100) 100 (10 ^ 18) = Inr (a0, 0) \<and> 0 < a0) \<and>
   (\<exists>a0 a1. get_amounts_from_ticks 0 (- 100) 100 (10 ^ 18) = Inr (a0, a1) \<and>
      0 < a0 \<and> 0 < a1) \<and>
   (\<exists>a1. get_amounts_from_ticks 200 (- 100) 100 (10 ^ 18) = Inr (0, a1) \<and> 0 < a1)"
proof (intro conjI impI)
  assume r: "\<bar>tcur\<bar> \<le> 887272 \<and> \<bar>tlow\<bar> \<le> 887272 \<and> \<bar>tup\<bar> \<le> 887272"
  define sc where "sc = sqrt_value tcur"
  define sl where "sl = sqrt_value tlow"
  define su where "su = sqrt_value tup"
  define lo where "lo = min sl su"
  define hi where "hi = max sl su"
  have p: "0 < sc" "0 < sl" "0 < su"
    using r sqrt_value_range(1)[of tcur] sqrt_value_range(1)[of tlow]
      sqrt_value_range(1)[of tup] by (simp_all add: sc_def sl_def su_def)
  then have q: "0 < lo" "0 < hi" "lo \<le> hi" by (simp_all add: lo_def hi_def)
  have v: "get_sqrt_ratio_at_tick tcur = Inr sc" "get_sqrt_ratio_at_tick tlow = Inr sl"
    "get_sqrt_ratio_at_tick tup = Inr su"
    using r by (simp_all add: get_sqrt_ratio_at_tick_value sc_def sl_def su_def)
  have a: "get_amounts_from_ticks tcur tlow tup L =
     (if sc \<le> lo then Inr (push_bit 96 L * (hi - lo) div hi div lo, 0)
      else if sc < hi then Inr (push_bit 96 L * (hi - sc) div hi div sc, L * (sc - lo) div 2 ^ 96)
      else Inr (0, L * (hi - lo) div 2 ^ 96))"
    unfolding sc_def lo_def hi_def sl_def su_def
    using r by (intro get_amounts_from_ticks_value) simp_all
  have a0: "get_amount0_for_liquidity lo hi L = Inr (push_bit 96 L * (hi - lo) div hi div lo)"
    using q by (simp add: get_amount0_for_liquidity_pos)
  have a1: "get_amount1_for_liquidity lo hi L = Inr (L * (hi - lo) div 2 ^ 96)"
    using q by (simp add: get_amount1_for_liquidity_value)
  have r1: "sc \<le> lo \<longrightarrow>
           (\<exists>a0. get_amount0_for_liquidity lo hi L = Inr a0 \<and>
              get_amounts_from_ticks tcur tlow tup L = Inr (a0, 0))"
    unfolding a a0 by simp
  have r2: "lo < sc \<and> sc < hi \<longrightarrow>
           (\<exists>a0 a1. get_amount0_for_liquidity sc hi L = Inr a0 \<and>
              get_amount1_for_liquidity lo sc L = Inr a1 \<and>
              get_amounts_from_ticks tcur tlow tup L = Inr (a0, a1))"
  proof
    assume h: "lo < sc \<and> sc < hi"
    have "get_amount0_for_liquidity sc hi L = Inr (push_bit 96 L * (hi - sc) div hi div sc)"
      using h p q by (simp add: get_amount0_for_liquidity_pos)
    moreover have "get_amount1_for_liquidity lo sc L = Inr (L * (sc - lo) div 2 ^ 96)"
      using h by (simp add: get_amount1_for_liquidity_value)
    ultimately show "\<exists>a0 a1. get_amount0_for_liquidity sc hi L = Inr a0 \<and>
              get_amount1_for_liquidity lo sc L = Inr a1 \<and>
              get_amounts_from_ticks tcur tlow tup L = Inr (a0, a1)"
      unfolding a using h by simp
  qed
  have r3: "hi \<le> sc \<longrightarrow>
           (\<exists>a1. get_amount1_for_liquidity lo hi L = Inr a1 \<and>
              get_amounts_from_ticks tcur tlow tup L = Inr (0, a1))"
  proof
    assume h: "hi \<le> sc"
    show "\<exists>a1. get_amount1_for_liquidity lo hi L = Inr a1 \<and>
              get_amounts_from_ticks tcur tlow tup L = Inr (0, a1)"
    proof (cases "sc \<le> lo")
      case True
      with h q have "lo = hi" by simp
      with True show ?thesis unfolding a a1 by simp
    next
      case False
      with h show ?thesis unfolding a a1 by simp
    qed
  qed
  from v r1 r2 r3 show "\<exists>sc sl su.
        get_sqrt_ratio_at_tick tcur = Inr sc \<and> get_sqrt_ratio_at_tick tlow = Inr sl \<and>
        get_sqrt_ratio_at_tick tup = Inr su \<and>
        (sc \<le> min sl su \<longrightarrow>
           (\<exists>a0. get_amount0_for_liquidity (min sl su) (max sl su) L = Inr a0 \<and>
              get_amounts_from_ticks tcur tlow tup L = Inr (a0, 0))) \<and>
        (min sl su < sc \<and> sc < max sl su \<longrightarrow>
           (\<exists>a0 a1. get_amount0_for_liquidity sc (max sl su) L = Inr a0 \<and>
              get_amount1_for_liquidity (min sl su) sc L = Inr a1 \<and>
              get_amounts_from_ticks tcur tlow tup L = Inr (a0, a1))) \<and>
        (max sl su \<le> sc \<longrightarrow>
           (\<exists>a1. get_amount1_for_liquidity (min sl su) (max sl su) L = Inr a1 \<and>
              get_amounts_from_ticks tcur tlow tup L = Inr (0, a1)))"
    unfolding lo_def hi_def by blast
qed (use get_amounts_from_ticks_examples in simp_all)

theorem get_amounts_from_ticks_regimes_witness:
  "\<bar>- 200 :: int\<bar> \<le> 887272 \<and> \<bar>- 100 :: int\<bar> \<le> 887272 \<and> \<bar>100 :: int\<bar> \<le> 887272 \<and>
   \<bar>0 :: int\<bar> \<le> 887272 \<and> \<bar>200 :: int\<bar> \<le> 887272 \<and>
   (\<exists>sc sl su a0.
      get_sqrt_ratio_at_tick (- 200) = Inr sc \<and> get_sqrt_ratio_at_tick (- 100) = Inr sl \<and>
      get_sqrt_ratio_at_tick 100 = Inr su \<and> sc \<le> min sl su \<and>
      get_amount0_for_liquidity (min sl su) (max sl su) 7 = Inr a0 \<and>
      get_amounts_from_ticks (- 200) (- 100) 100 7 = Inr (a0, 0)) \<and>
   (\<exists>sc sl su a0 a1.
      get_sqrt_ratio_at_tick 0 = Inr sc \<and> get_sqrt_ratio_at_tick (- 100) = Inr sl \<and>
      get_sqrt_ratio_at_tick 100 = Inr su \<and> min sl su < sc \<and> sc < max sl su \<and>
      get_amount0_for_liquidity sc (max sl su) 7 = Inr a0 \<and>
      get_amount1_for_liquidity (min sl su) sc 7 = Inr a1 \<and>
      get_amounts_from_ticks 0 (- 100) 100 7 = Inr (a0, a1)) \<and>
   (\<exists>sc sl su a1.
      get_sqrt_ratio_at_tick 200 = Inr sc \<and> get_sqrt_ratio_at_tick (- 100) = Inr sl \<and>
      get_sqrt_ratio_at_tick 100 = Inr su \<and> max sl su \<le> sc \<and>
      get_amount1_for_liquidity (min sl su) (max sl su) 7 = Inr a1 \<and>
      get_amounts_from_ticks 200 (- 100) 100 7 = Inr (0, a1))"
  using get_amounts_from_ticks_regimes[of "- 200" "- 100" 100 7]
    get_amounts_from_ticks_regimes[of 0 "- 100" 100 7]
    get_amounts_from_ticks_regimes[of 200 "- 100" 100 7]
  unfolding sqrt_ratio_examples sqrt_ratio_example_zero
  by simp

section \<open>Properties of the aggregation\<close>



text \<open>The index lists, and the loop over the zero identifiers as a sum per address.\<close>

lemma zero_indices_all:
  assumes "\<forall>v \<in> set ids. v = (0::int)"
  shows "[index. (index, v) \<leftarrow> enumerate n ids, v = 0] = [n..<n + length ids]"
  using assms
proof (induction ids arbitrary: n)
  case Nil
  then show ?case by simp
next
  case (Cons x xs)
  have "[n..<n + length (x # xs)] = n # [Suc n..<n + length (x # xs)]"
    by (rule upt_conv_Cons) simp
  then have "[n..<n + length (x # xs)] = n # [Suc n..<Suc n + length xs]"
    by simp
  with Cons show ?case by simp
qed

lemma non_zero_indices_none:
  assumes "\<forall>v \<in> set ids. v = (0::int)"
  shows "[index. (index, v) \<leftarrow> enumerate n ids, v \<noteq> 0] = []"
  using assms by (induction ids arbitrary: n) simp_all


lemma process_zero_foldl:
  assumes "\<forall>i \<in> set is. i < length addrs \<and> i < length amts"
  shows "process_zero (addrs, ids, amts) is res =
           Inr (foldl (\<lambda>r i. add_or_update_dict r (addrs ! i) (amts ! i)) res is)"
  using assms by (induction "is" arbitrary: res) (simp_all add: list_get_def)

lemma sum_other_keys:
  "a \<notin> fst ` set kvs \<Longrightarrow> sum_list (map (\<lambda>(k, v). if k = a then v else (0::int)) kvs) = 0"
  by (induction kvs) auto

lemma foldl_add_or_update:
  "foldl (\<lambda>r (k, v). add_or_update_dict r k v) res kvs a =
     (if a \<in> fst ` set kvs
      then Some ((case res a of None \<Rightarrow> 0 | Some old \<Rightarrow> old) +
                 sum_list (map (\<lambda>(k, v). if k = a then v else 0) kvs))
      else res a)"
proof (induction kvs arbitrary: res)
  case Nil
  then show ?case by simp
next
  case (Cons kv kvs)
  obtain k v where kv: "kv = (k, v)" by (cases kv)
  show ?case
    unfolding kv using Cons.IH[of "add_or_update_dict res k v"]
    by (auto simp add: add_or_update_dict_def sum_other_keys split: option.splits)
qed

lemma zip_as_map_upt:
  assumes "length xs = n" "length ys = n"
  shows "map (\<lambda>i. (xs ! i, ys ! i)) [0..<n] = zip xs ys"
  using assms by (intro nth_equalityI) simp_all

lemma aggregate_all_zero:
  assumes "length addrs = length ids" "length amts = length ids" "\<forall>v \<in> set ids. v = 0"
  shows "get_arcadia_account_nft_position (addrs, ids, amts) w3 =
           (Inr (summed_amounts addrs amts), [])"
proof -
  let ?n = "length ids"
  have z: "[index. (index, v) \<leftarrow> enumerate 0 ids, v = 0] = [0..<?n]"
    "[index. (index, v) \<leftarrow> enumerate 0 ids, v \<noteq> 0] = []"
    using zero_indices_all[OF assms(3), of 0] non_zero_indices_none[OF assms(3), of 0]
    by simp_all
  have "process_zero (addrs, ids, amts) [0..<?n] Map.empty =
          Inr (foldl (\<lambda>r i. add_or_update_dict r (addrs ! i) (amts ! i)) Map.empty [0..<?n])"
    by (rule process_zero_foldl) (simp add: assms)
  also have "foldl (\<lambda>r i. add_or_update_dict r (addrs ! i) (amts ! i)) Map.empty [0..<?n] =
      foldl (\<lambda>r (k, v). add_or_update_dict r k v) Map.empty
        (map (\<lambda>i. (addrs ! i, amts ! i)) [0..<?n])"
    by (simp add: foldl_map)
  also have "\<dots> = foldl (\<lambda>r (k, v). add_or_update_dict r k v) Map.empty (zip addrs amts)"
    using assms by (simp add: zip_as_map_upt)
  also have "\<dots> = summed_amounts addrs amts"
  proof
    fix a
    have "fst ` set (zip addrs amts) = set addrs"
      using assms by (metis map_fst_zip set_map)
    then show "foldl (\<lambda>r (k, v). add_or_update_dict r k v) Map.empty (zip addrs amts) a =
        summed_amounts addrs amts a"
      by (simp add: foldl_add_or_update summed_amounts_def)
  qed
  finally show ?thesis
    by (simp add: get_arcadia_account_nft_position_def z)
qed































section \<open>The claims about the aggregation\<close>

text \<open>
  Claim C6. When every identifier is zero (and the three sequences have one length), the
  aggregation makes no call to the chain reader (the call log is empty) and returns the
  map that sums each entry's amount under its address, for any reader. For two distinct
  addresses with amounts 100 and 50 the result is exactly these two entries.
\<close>

theorem aggregate_fungible_only:
  "(length addrs = length ids \<and> length amts = length ids \<and> (\<forall>v \<in> set ids. v = 0) \<longrightarrow>
      get_arcadia_account_nft_position (addrs, ids, amts) w3 =
        (Inr (summed_amounts addrs amts), [])) \<and>
   (addrX \<noteq> addrY \<longrightarrow>
      get_arcadia_account_nft_position ([addrX, addrY], [0, 0], [100, 50]) w3 =
        (Inr [addrX \<mapsto> 100, addrY \<mapsto> 50], []))"
proof (intro conjI impI)
  assume "length addrs = length ids \<and> length amts = length ids \<and> (\<forall>v \<in> set ids. v = 0)"
  then show "get_arcadia_account_nft_position (addrs, ids, amts) w3 =
        (Inr (summed_amounts addrs amts), [])"
    by (simp add: aggregate_all_zero)
next
  assume d: "addrX \<noteq> addrY"
  have "summed_amounts [addrX, addrY] [100, 50] = [addrX \<mapsto> 100, addrY \<mapsto> 50]"
    using d by (auto simp add: summed_amounts_def fun_eq_iff)
  moreover have "get_arcadia_account_nft_position ([addrX, addrY], [0, 0], [100, 50]) w3 =
      (Inr (summed_amounts [addrX, addrY] [100, 50]), [])"
    by (rule aggregate_all_zero) simp_all
  ultimately show "get_arcadia_account_nft_position ([addrX, addrY], [0, 0], [100, 50]) w3 =
        (Inr [addrX \<mapsto> 100, addrY \<mapsto> 50], [])"
    by simp
qed

theorem aggregate_fungible_only_witness:
  "length [''x'', ''y'', ''x''] = length [0, 0, 0 :: int] \<and>
   length [100, 50, 5 :: int] = length [0, 0, 0 :: int] \<and> set [0, 0, 0 :: int] = {0} \<and>
   get_arcadia_account_nft_position ([''x'', ''y'', ''x''], [0, 0, 0], [100, 50, 5]) example_reader =
     (Inr (summed_amounts [''x'', ''y'', ''x''] [100, 50, 5]), []) \<and>
   summed_amounts [''x'', ''y'', ''x''] [100, 50, 5] ''x'' = Some 105 \<and>
   ''x'' \<noteq> ''y'' \<and>
   get_arcadia_account_nft_position ([''x'', ''y''], [0, 0], [100, 50]) example_reader =
     (Inr [''x'' \<mapsto> 100, ''y'' \<mapsto> 50], [])"
  using aggregate_fungible_only[of "[''x'', ''y'', ''x'']" "[0, 0, 0]" "[100, 50, 5]"
      example_reader "''x''" "''y''"]
  by (simp add: summed_amounts_def)







end
